theory Spec2Isabelle
  imports Main "HOL-Library.Word"
begin

unbundle bit_operations_syntax

section \<open>Python values\<close>

text \<open>
  A \<open>bytes\<close> object is a list of 8-bit words; a Python \<open>int\<close> is an \<open>int\<close>.
  Times are in milliseconds (\<open>2.0\<close> s is 2000, \<open>0.1\<close> s is 100, \<open>0.02\<close> s is 20).
\<close>

type_synonym byte = "8 word"

datatype py_error = IndexError | ValueError

definition bindE :: "py_error + 'a \<Rightarrow> ('a \<Rightarrow> py_error + 'b) \<Rightarrow> py_error + 'b" where
  "bindE m f = (case m of Inl e \<Rightarrow> Inl e | Inr v \<Rightarrow> f v)"

text \<open>\<open>bytes(data)\<close> on a list of ints: ValueError unless every element is in range(256).\<close>

definition py_bytes :: "int list \<Rightarrow> py_error + byte list" where
  "py_bytes xs =
     (if list_all (\<lambda>x. 0 \<le> x \<and> x < 256) xs then Inr (map word_of_int xs)
      else Inl ValueError)"

text \<open>\<open>b[i]\<close> on a bytes object for a constant index \<open>i \<ge> 0\<close>: an int, or IndexError.\<close>

definition getitem :: "byte list \<Rightarrow> nat \<Rightarrow> py_error + int" where
  "getitem b i = (if i < length b then Inr (uint (b ! i)) else Inl IndexError)"

text \<open>Truth value of an expression that is \<open>None\<close> or a bytes object.\<close>

fun truthy :: "byte list option \<Rightarrow> bool" where
  "truthy None = False"
| "truthy (Some b) = (b \<noteq> [])"

subsection \<open>Hexadecimal text\<close>

definition hex_lower :: "nat \<Rightarrow> char" where
  "hex_lower n = ''0123456789abcdef'' ! (n mod 16)"

definition hex_upper :: "nat \<Rightarrow> char" where
  "hex_upper n = ''0123456789ABCDEF'' ! (n mod 16)"

text \<open>\<open>data.hex()\<close>: two lower-case digits for each byte.\<close>

definition bytes_hex :: "byte list \<Rightarrow> string" where
  "bytes_hex bs = concat (map (\<lambda>b. [hex_lower (unat b div 16), hex_lower (unat b mod 16)]) bs)"

text \<open>The digits of \<open>format(n, 'X')\<close>, and \<open>format(n, '03X')\<close>, which pads them with zeros to width 3.\<close>

function digits_X :: "nat \<Rightarrow> string" where
  "digits_X n = (if n < 16 then [hex_upper n] else digits_X (n div 16) @ [hex_upper n])"
  by pat_completeness auto
termination
  by (relation "measure id") auto

definition format_03X :: "nat \<Rightarrow> string" where
  "format_03X n = replicate (3 - length (digits_X n)) CHR ''0'' @ digits_X n"

section \<open>OpenPortConnector\<close>

text \<open>
  The connector and the serial line behind it. \<open>written\<close> is what \<open>serial.write\<close> has
  accepted, in order. The environment is a script: \<open>write_faults\<close> says for each
  coming \<open>serial.write\<close> whether it raises (none left: it does not), and \<open>inbox\<close>
  gives for each coming \<open>receive_can_frame\<close> call the time it takes and what it
  returns (none left: the call times out after its \<open>timeout\<close>). \<open>now\<close> is the clock
  that \<open>time.time()\<close> reads.
\<close>

type_synonym can_frame = "nat \<times> byte list"

record connector =
  is_connected :: bool
  written :: "string list"
  write_faults :: "bool list"
  inbox :: "(nat \<times> can_frame option) list"
  now :: nat

text \<open>
  \<open>send_can_frame\<close> writes the line \<open>t\<close>, the id as three upper-case hex digits,
  the payload in hex, and a carriage return. Its lock is not modelled: the model has one
  thread of control.
\<close>

definition frame_line :: "nat \<Rightarrow> byte list \<Rightarrow> string" where
  "frame_line can_id data = CHR ''t'' # format_03X can_id @ bytes_hex data @ [CHR 0x0D]"

definition send_can_frame :: "connector \<Rightarrow> nat \<Rightarrow> byte list \<Rightarrow> bool \<times> connector" where
  "send_can_frame c can_id data =
     (if \<not> is_connected c then (False, c)
      else (case write_faults c of
              [] \<Rightarrow> (True, c\<lparr>written := written c @ [frame_line can_id data]\<rparr>)
            | f # fs \<Rightarrow>
                if f then (False, c\<lparr>write_faults := fs\<rparr>)
                else (True, c\<lparr>written := written c @ [frame_line can_id data],
                               write_faults := fs\<rparr>)))"

text \<open>
  \<open>receive_can_frame(timeout)\<close>: its reading and parsing of serial lines is not modelled;
  the frame it returns comes from \<open>inbox\<close>. Without a connection it returns \<open>None\<close> at
  once; the model charges that call one millisecond, so that a caller polling against
  the clock sees time pass.
\<close>

definition receive_can_frame :: "connector \<Rightarrow> nat \<Rightarrow> can_frame option \<times> connector" where
  "receive_can_frame c timeout =
     (if \<not> is_connected c then (None, c\<lparr>now := now c + 1\<rparr>)
      else (case inbox c of
              [] \<Rightarrow> (None, c\<lparr>now := now c + timeout\<rparr>)
            | (dt, r) # es \<Rightarrow> (r, c\<lparr>inbox := es, now := now c + dt\<rparr>)))"

section \<open>DSMProtocol\<close>

record dsm =
  connector :: connector
  tx_id :: nat
  rx_id :: nat

definition DSMProtocol :: "connector \<Rightarrow> dsm" where
  "DSMProtocol c = \<lparr>connector = c, tx_id = 0x7E0, rx_id = 0x7E8\<rparr>"

text \<open>The \<open>while\<close> loop of \<open>_send_uds\<close>; \<open>start_time\<close> is the clock reading before it.\<close>

function poll :: "dsm \<Rightarrow> nat \<Rightarrow> byte list option \<times> dsm" where
  "poll p start_time =
     (if int (now (connector p)) - int start_time < 2000 then
        (case receive_can_frame (connector p) 100 of
           (None, c') \<Rightarrow> poll (p\<lparr>connector := c'\<rparr>) start_time
         | (Some (resp_id, resp_data), c') \<Rightarrow>
             if resp_id = rx_id p then (Some resp_data, p\<lparr>connector := c'\<rparr>)
             else poll (p\<lparr>connector := c'\<rparr>) start_time)
      else (None, p))"
  by pat_completeness auto
termination
  by (relation "measures [\<lambda>(p, s). length (inbox (connector p)),
                          \<lambda>(p, s). nat (2000 - (int (now (connector p)) - int s))]")
     (auto simp: receive_can_frame_def split: if_splits list.splits prod.splits)

definition send_uds :: "dsm \<Rightarrow> int list \<Rightarrow> (py_error + byte list option) \<times> dsm" where
  "send_uds p data =
     (case py_bytes data of
        Inl e \<Rightarrow> (Inl e, p)
      | Inr bs \<Rightarrow>
          (case send_can_frame (connector p) (tx_id p) bs of
             (False, c') \<Rightarrow> (Inr None, p\<lparr>connector := c'\<rparr>)
           | (True, c') \<Rightarrow>
               (case poll (p\<lparr>connector := c'\<rparr>) (now c') of
                  (r, p') \<Rightarrow> (Inr r, p'))))"

definition start_session :: "dsm \<Rightarrow> (py_error + byte list option) \<times> dsm" where
  "start_session p = send_uds p [0x10, 0x03]"

definition read_data_by_identifier :: "dsm \<Rightarrow> int \<Rightarrow> (py_error + byte list option) \<times> dsm" where
  "read_data_by_identifier p data_id =
     (let data = [0x22, drop_bit 8 data_id AND 0xFF, data_id AND 0xFF] in
      case send_uds p data of
        (Inl e, p') \<Rightarrow> (Inl e, p')
      | (Inr response, p') \<Rightarrow>
          (case response of
             None \<Rightarrow> (Inr None, p')
           | Some r \<Rightarrow>
               if truthy response \<and> 2 < length r then
                 (bindE (getitem r 0) (\<lambda>b0.
                    if b0 = 0x62 then
                      bindE (getitem r 1) (\<lambda>b1.
                        if b1 = drop_bit 8 data_id then
                          bindE (getitem r 2) (\<lambda>b2.
                            if b2 = data_id AND 0xFF then Inr (Some (drop 3 r))
                            else Inr None)
                        else Inr None)
                    else Inr None), p')
               else (Inr None, p')))"

text \<open>What \<open>security_access\<close> returns: the seed bytes, a bool, or \<open>None\<close>.\<close>

datatype sa_result = SA_seed "byte list" | SA_bool bool | SA_None

definition security_access ::
  "dsm \<Rightarrow> int \<Rightarrow> byte list option \<Rightarrow> (py_error + sa_result) \<times> dsm" where
  "security_access p level key =
     (if level = 1 then
        (case send_uds p [0x27, 0x01] of
           (Inl e, p') \<Rightarrow> (Inl e, p')
         | (Inr response, p') \<Rightarrow>
             (case response of
                None \<Rightarrow> (Inr SA_None, p')
              | Some r \<Rightarrow>
                  if truthy response \<and> 2 < length r then
                    (bindE (getitem r 0) (\<lambda>b0.
                       if b0 = 0x67 then
                         bindE (getitem r 1) (\<lambda>b1.
                           if b1 = 0x01 then Inr (SA_seed (drop 2 r)) else Inr SA_None)
                       else Inr SA_None), p')
                  else (Inr SA_None, p')))
      else
        (case key of
           None \<Rightarrow> (Inr SA_None, p)
         | Some k \<Rightarrow>
             if level = 2 \<and> truthy key then
               (case send_uds p ([0x27, 0x02] @ map uint k) of
                  (Inl e, p') \<Rightarrow> (Inl e, p')
                | (Inr response, p') \<Rightarrow> (Inr (SA_bool (response \<noteq> None)), p'))
             else (Inr SA_None, p)))"

definition read_memory_by_address ::
  "dsm \<Rightarrow> int \<Rightarrow> int \<Rightarrow> (py_error + byte list option) \<times> dsm" where
  "read_memory_by_address p address len =
     (let data = [0x23, 0x44, 0x22]
                 @ [drop_bit 24 address AND 0xFF, drop_bit 16 address AND 0xFF,
                    drop_bit 8 address AND 0xFF, address AND 0xFF]
                 @ [drop_bit 8 len AND 0xFF, len AND 0xFF] in
      case send_uds p data of
        (Inl e, p') \<Rightarrow> (Inl e, p')
      | (Inr response, p') \<Rightarrow>
          (case response of
             None \<Rightarrow> (Inr None, p')
           | Some r \<Rightarrow>
               if truthy response then
                 (bindE (getitem r 0) (\<lambda>b0.
                    if b0 = 0x63 then Inr (Some (drop 1 r)) else Inr None), p')
               else (Inr None, p')))"

text \<open>\<open>list(range(start, stop, step))\<close>; a zero step raises ValueError.\<close>

definition py_range :: "int \<Rightarrow> int \<Rightarrow> int \<Rightarrow> py_error + int list" where
  "py_range start stop step =
     (if step = 0 then Inl ValueError
      else if 0 < step then
        Inr (map (\<lambda>k. start + int k * step) [0..<nat ((stop - start + step - 1) div step)])
      else
        Inr (map (\<lambda>k. start + int k * step) [0..<nat ((start - stop - step - 1) div (- step))]))"

text \<open>\<open>time.sleep\<close>, in milliseconds.\<close>

definition sleep :: "dsm \<Rightarrow> nat \<Rightarrow> dsm" where
  "sleep p ms = p\<lparr>connector := (connector p)\<lparr>now := now (connector p) + ms\<rparr>\<rparr>"

text \<open>
  The \<open>for\<close> loop of \<open>scan_eeprom_segments\<close> over the identifiers still to visit;
  its \<open>print\<close> is left out.
\<close>

fun scan_loop ::
  "dsm \<Rightarrow> (int \<times> byte list) list \<Rightarrow> int list \<Rightarrow> (py_error + (int \<times> byte list) list) \<times> dsm" where
  "scan_loop p segments [] = (Inr segments, p)"
| "scan_loop p segments (seg_id # rest) =
     (case read_data_by_identifier p seg_id of
        (Inl e, p') \<Rightarrow> (Inl e, p')
      | (Inr data, p') \<Rightarrow>
          (case data of
             None \<Rightarrow> scan_loop (sleep p' 20) segments rest
           | Some d \<Rightarrow>
               if truthy data \<and> 0 < length d
               then scan_loop (sleep p' 20) (segments @ [(seg_id, d)]) rest
               else scan_loop (sleep p' 20) segments rest))"

definition scan_eeprom_segments ::
  "dsm \<Rightarrow> int \<Rightarrow> int \<Rightarrow> int \<Rightarrow> (py_error + (int \<times> byte list) list) \<times> dsm" where
  "scan_eeprom_segments p start_id end_id step =
     (case py_range start_id (end_id + 1) step of
        Inl e \<Rightarrow> (Inl e, p)
      | Inr ids \<Rightarrow> scan_loop p [] ids)"

section \<open>Specification-side notions\<close>

text \<open>
  An inbox entry is a reply when it holds a frame whose arbitration id is the
  receive id. \<open>first_reply rx elapsed es\<close> is the payload of the first reply in
  \<open>es\<close>, provided the receive call that returns it starts less than 2000 ms after the
  request; \<open>elapsed\<close> is the time already spent.
\<close>

definition is_reply :: "nat \<Rightarrow> nat \<times> can_frame option \<Rightarrow> bool" where
  "is_reply rx e = (case snd e of None \<Rightarrow> False | Some (i, d) \<Rightarrow> i = rx)"

definition first_reply :: "nat \<Rightarrow> int \<Rightarrow> (nat \<times> can_frame option) list \<Rightarrow> byte list option" where
  "first_reply rx elapsed es =
     (case dropWhile (\<lambda>e. \<not> is_reply rx e) es of
        [] \<Rightarrow> None
      | e # _ \<Rightarrow>
          if elapsed + int (sum_list (map fst (takeWhile (\<lambda>e. \<not> is_reply rx e) es))) < 2000
          then map_option snd (snd e) else None)"

text \<open>Whether \<open>send_can_frame\<close> would fail on this connector, whatever the frame.\<close>

definition send_fails :: "connector \<Rightarrow> bool" where
  "send_fails c = (\<not> fst (send_can_frame c 0 []))"

text \<open>
  The queries of a scan, by the words of the specification: one
  \<open>read_data_by_identifier\<close> for each identifier, in order, 20 ms apart, with the result
  each one gets.
\<close>

fun scan_queries :: "dsm \<Rightarrow> int list \<Rightarrow> (int \<times> (py_error + byte list option)) list" where
  "scan_queries p [] = []"
| "scan_queries p (i # ids) =
     (case read_data_by_identifier p i of
        (r, p') \<Rightarrow> (i, r) # scan_queries (sleep p' 20) ids)"

text \<open>The segments among the results of a list of queries: those with non-empty data.\<close>

definition found_segments ::
  "(int \<times> (py_error + byte list option)) list \<Rightarrow> (int \<times> byte list) list" where
  "found_segments qs =
     concat (map (\<lambda>(i, r). case r of Inr (Some d) \<Rightarrow> (if d \<noteq> [] then [(i, d)] else []) | _ \<Rightarrow> []) qs)"

text \<open>A protocol whose connector is connected and has no write fault coming.\<close>

definition quiet :: "dsm \<Rightarrow> bool" where
  "quiet p \<longleftrightarrow> is_connected (connector p) \<and> write_faults (connector p) = []"

section \<open>A simulated bus\<close>

text \<open>A connected adapter at time 0 whose coming receive calls are \<open>es\<close>.\<close>

definition bench :: "(nat \<times> can_frame option) list \<Rightarrow> connector" where
  "bench es = \<lparr>is_connected = True, written = [], write_faults = [], inbox = es, now = 0\<rparr>"

text \<open>An adapter that was never connected.\<close>

definition unplugged :: connector where
  "unplugged = \<lparr>is_connected = False, written = [], write_faults = [], inbox = [], now = 0\<rparr>"

section \<open>The request/response loop\<close>

declare poll.simps [simp del]
declare digits_X.simps [simp del]

lemma poll_unchanged:
  "written (connector (snd (poll p s))) = written (connector p) \<and>
   is_connected (connector (snd (poll p s))) = is_connected (connector p) \<and>
   write_faults (connector (snd (poll p s))) = write_faults (connector p) \<and>
   tx_id (snd (poll p s)) = tx_id p \<and> rx_id (snd (poll p s)) = rx_id p"
proof (induction p s rule: poll.induct)
  case (1 p s)
  note eq = poll.simps [of p s]
  show ?case
  proof (cases "int (now (connector p)) - int s < 2000")
    case False
    then show ?thesis by (simp add: eq)
  next
    case True
    obtain r c' where rc: "receive_can_frame (connector p) 100 = (r, c')"
      by (cases "receive_can_frame (connector p) 100")
    then have c': "written c' = written (connector p) \<and> is_connected c' = is_connected (connector p)
        \<and> write_faults c' = write_faults (connector p)"
      by (auto simp: receive_can_frame_def split: if_splits list.splits prod.splits)
    show ?thesis
    proof (cases r)
      case None
      with 1(1) [OF True rc [symmetric]] rc True c' show ?thesis
        by (simp add: eq)
    next
      case (Some f)
      obtain i d where f: "f = (i, d)" by (cases f)
      show ?thesis
      proof (cases "i = rx_id p")
        case True
        with Some f rc \<open>int (now (connector p)) - int s < 2000\<close> c' show ?thesis
          by (simp add: eq)
      next
        case False
        with 1(2) [OF \<open>int (now (connector p)) - int s < 2000\<close> rc [symmetric] Some f [symmetric] False]
          Some f rc \<open>int (now (connector p)) - int s < 2000\<close> c' show ?thesis
          by (simp add: eq)
      qed
    qed
  qed
qed

lemma first_reply_Nil: "first_reply rx e [] = None"
  by (simp add: first_reply_def)

lemma first_reply_late: "2000 \<le> e \<Longrightarrow> first_reply rx e es = None"
  by (auto simp: first_reply_def split: list.splits)

lemma is_reply_simps:
  "is_reply rx (dt, None) = False" "is_reply rx (dt, Some (i, d)) = (i = rx)"
  by (simp_all add: is_reply_def)

lemma first_reply_Cons:
  "e < 2000 \<Longrightarrow> first_reply rx e ((dt, r) # es) =
     (case r of None \<Rightarrow> first_reply rx (e + int dt) es
      | Some (i, d) \<Rightarrow> if i = rx then Some d else first_reply rx (e + int dt) es)"
  by (cases r) (auto simp: first_reply_def is_reply_simps add.assoc cong: list.case_cong)

lemma poll_first_reply:
  "is_connected (connector p) \<Longrightarrow>
   fst (poll p s) = first_reply (rx_id p) (int (now (connector p)) - int s) (inbox (connector p))"
proof (induction p s rule: poll.induct)
  case (1 p s)
  note eq = poll.simps [of p s]
  note conn = \<open>is_connected (connector p)\<close>
  show ?case
  proof (cases "int (now (connector p)) - int s < 2000")
    case False
    then show ?thesis by (simp add: eq first_reply_late)
  next
    case True
    show ?thesis
    proof (cases "inbox (connector p)")
      case Nil
      then have rc: "receive_can_frame (connector p) 100 = (None, (connector p)\<lparr>now := now (connector p) + 100\<rparr>)"
        using conn by (simp add: receive_can_frame_def)
      from 1(1) [OF True rc [symmetric] refl] conn Nil rc True show ?thesis
        by (simp add: eq first_reply_Nil)
    next
      case (Cons ev es)
      obtain dt r where ev: "ev = (dt, r)" by (cases ev)
      have rc: "receive_can_frame (connector p) 100 = (r, (connector p)\<lparr>inbox := es, now := now (connector p) + dt\<rparr>)"
        using conn Cons ev by (simp add: receive_can_frame_def)
      show ?thesis
      proof (cases r)
        case None
        with 1(1) [OF True rc [symmetric]] conn Cons ev rc True show ?thesis
          by (simp add: eq first_reply_Cons algebra_simps)
      next
        case (Some f)
        obtain i d where f: "f = (i, d)" by (cases f)
        show ?thesis
        proof (cases "i = rx_id p")
          case True
          with Some f rc Cons ev \<open>int (now (connector p)) - int s < 2000\<close> show ?thesis
            by (simp add: eq first_reply_Cons)
        next
          case False
          with 1(2) [OF True rc [symmetric] Some f [symmetric] False]
            Some f rc Cons ev True conn show ?thesis
            by (simp add: eq first_reply_Cons algebra_simps)
        qed
      qed
    qed
  qed
qed


lemma and_255: "(x::int) AND 0xFF = x mod 256"
proof -
  have "x AND mask 8 = x mod 2 ^ 8"
    by (simp flip: take_bit_eq_mask add: take_bit_eq_mod)
  moreover have "mask 8 = (255::int)"
    by (simp add: mask_eq_exp_minus_1)
  ultimately show ?thesis by simp
qed

lemma mask_byte: "0 \<le> (x::int) AND 0xFF \<and> x AND 0xFF < 256"
  by (simp add: and_255)

lemma py_bytes_uint: "py_bytes (map uint (k :: byte list)) = Inr k"
proof -
  have "list_all (\<lambda>x. 0 \<le> x \<and> x < 256) (map uint k)"
    using uint_lt2p [where 'a = 8] by (auto simp: list_all_iff)
  then show ?thesis by (simp add: py_bytes_def o_def)
qed

lemma send_can_frame_written:
  "written (snd (send_can_frame c i bs)) =
     written c @ (if fst (send_can_frame c i bs) then [frame_line i bs] else [])"
  by (auto simp: send_can_frame_def split: list.splits)

lemma send_can_frame_keeps:
  "is_connected (snd (send_can_frame c i bs)) = is_connected c"
  "inbox (snd (send_can_frame c i bs)) = inbox c"
  "now (snd (send_can_frame c i bs)) = now c"
  by (auto simp: send_can_frame_def split: list.splits)

lemma send_can_frame_True: "fst (send_can_frame c i bs) \<Longrightarrow> is_connected c"
  by (auto simp: send_can_frame_def split: if_splits)

lemma send_uds_alt:
  "py_bytes data = Inr bs \<Longrightarrow> send_uds p data =
     (let c' = snd (send_can_frame (connector p) (tx_id p) bs); p1 = p\<lparr>connector := c'\<rparr> in
      if fst (send_can_frame (connector p) (tx_id p) bs)
      then (Inr (fst (poll p1 (now c'))), snd (poll p1 (now c')))
      else (Inr None, p1))"
  by (auto simp: send_uds_def Let_def split: prod.splits bool.splits)

lemma send_uds_Inl: "py_bytes data = Inl e \<Longrightarrow> send_uds p data = (Inl e, p)"
  by (simp add: send_uds_def)

lemma send_uds_fst:
  assumes "py_bytes data = Inr bs"
  shows "fst (send_uds p data) =
     Inr (if fst (send_can_frame (connector p) (tx_id p) bs)
          then first_reply (rx_id p) 0 (inbox (connector p)) else None)"
proof (cases "fst (send_can_frame (connector p) (tx_id p) bs)")
  case False
  with assms show ?thesis by (simp add: send_uds_alt Let_def)
next
  case True
  let ?c = "snd (send_can_frame (connector p) (tx_id p) bs)"
  have "fst (poll (p\<lparr>connector := ?c\<rparr>) (now ?c)) = first_reply (rx_id p) 0 (inbox (connector p))"
    using poll_first_reply [of "p\<lparr>connector := ?c\<rparr>" "now ?c"] True
      send_can_frame_True [of "connector p" "tx_id p" bs]
    by (simp add: send_can_frame_keeps)
  with True assms show ?thesis by (simp add: send_uds_alt Let_def)
qed

lemma send_uds_written:
  assumes "py_bytes data = Inr bs"
  shows "written (connector (snd (send_uds p data))) =
     written (connector p) @
       (if fst (send_can_frame (connector p) (tx_id p) bs) then [frame_line (tx_id p) bs] else [])"
  using assms poll_unchanged [of "p\<lparr>connector := snd (send_can_frame (connector p) (tx_id p) bs)\<rparr>"]
  by (simp add: send_uds_alt Let_def send_can_frame_written)

lemma send_uds_no_poll:
  assumes "py_bytes data = Inr bs" "\<not> fst (send_can_frame (connector p) (tx_id p) bs)"
  shows "inbox (connector (snd (send_uds p data))) = inbox (connector p) \<and>
         now (connector (snd (send_uds p data))) = now (connector p)"
  using assms by (simp add: send_uds_alt Let_def send_can_frame_keeps)

lemma send_uds_keeps:
  "tx_id (snd (send_uds p data)) = tx_id p \<and> rx_id (snd (send_uds p data)) = rx_id p \<and>
   is_connected (connector (snd (send_uds p data))) = is_connected (connector p)"
proof (cases "py_bytes data")
  case (Inl e)
  then show ?thesis by (simp add: send_uds_Inl)
next
  case (Inr bs)
  then show ?thesis
    using poll_unchanged [of "p\<lparr>connector := snd (send_can_frame (connector p) (tx_id p) bs)\<rparr>"]
    by (simp add: send_uds_alt Let_def send_can_frame_keeps)
qed

lemma first_reply_Some_iff:
  "first_reply rx e es = Some d \<longleftrightarrow>
     (\<exists>k<length es. snd (es ! k) = Some (rx, d) \<and> (\<forall>j<k. \<forall>d'. snd (es ! j) \<noteq> Some (rx, d'))
        \<and> e + int (sum_list (map fst (take k es))) < 2000)"
proof (induction es arbitrary: e)
  case Nil
  then show ?case by (simp add: first_reply_Nil)
next
  case (Cons ev es)
  obtain dt r where ev: "ev = (dt, r)" by (cases ev)
  show ?case
  proof (cases "e < 2000")
    case False
    then show ?thesis by (auto simp: first_reply_late)
  next
    case True
    have step: "(\<exists>k<length (ev # es). snd ((ev # es) ! k) = Some (rx, d)
          \<and> (\<forall>j<k. \<forall>d'. snd ((ev # es) ! j) \<noteq> Some (rx, d'))
          \<and> e + int (sum_list (map fst (take k (ev # es)))) < 2000)
       \<longleftrightarrow> (r = Some (rx, d) \<or> ((\<forall>d'. r \<noteq> Some (rx, d')) \<and>
            (\<exists>k<length es. snd (es ! k) = Some (rx, d) \<and> (\<forall>j<k. \<forall>d'. snd (es ! j) \<noteq> Some (rx, d'))
              \<and> (e + int dt) + int (sum_list (map fst (take k es))) < 2000)))"
      using True by (simp add: ev Ex_less_Suc2 All_less_Suc2 add.assoc) blast
    show ?thesis
      unfolding step Cons.IH [symmetric]
      using True by (cases r) (auto simp: ev first_reply_Cons split: if_splits)

  qed
qed

section \<open>read_data_by_identifier\<close>

lemma byte_eq_iff: "0 \<le> v \<Longrightarrow> v < 256 \<Longrightarrow> uint (b :: byte) = v \<longleftrightarrow> b = word_of_int v"
  by (auto simp: word_of_int_inverse uint_word_of_int)

lemma rdbi_request: "py_bytes [0x22, drop_bit 8 i AND 0xFF, i AND 0xFF] =
    Inr [0x22, word_of_int (drop_bit 8 i AND 0xFF), word_of_int (i AND 0xFF)]"
  using mask_byte [of i] mask_byte [of "drop_bit 8 i"]
  by (simp add: py_bytes_def)

lemma read_data_by_identifier_alt:
  "read_data_by_identifier p data_id =
     (let sr = send_uds p [0x22, drop_bit 8 data_id AND 0xFF, data_id AND 0xFF] in
      (Inr (case fst sr of
              Inr (Some r) \<Rightarrow>
                if 2 < length r \<and> uint (r ! 0) = 0x62 \<and> uint (r ! 1) = drop_bit 8 data_id
                   \<and> uint (r ! 2) = data_id AND 0xFF
                then Some (drop 3 r) else None
            | _ \<Rightarrow> None), snd sr))"
proof -
  obtain v where v: "fst (send_uds p [0x22, drop_bit 8 data_id AND 0xFF, data_id AND 0xFF]) = Inr v"
    using send_uds_fst [OF rdbi_request] by blast
  then show ?thesis
    by (cases "send_uds p [0x22, drop_bit 8 data_id AND 0xFF, data_id AND 0xFF]")
       (auto simp: read_data_by_identifier_def Let_def getitem_def bindE_def split: option.splits)
qed

lemma list3_iff:
  "(r = a # b # c # x) \<longleftrightarrow> (2 < length r \<and> r ! 0 = a \<and> r ! 1 = b \<and> r ! 2 = c \<and> x = drop 3 r)"
proof (cases r)
  case Nil then show ?thesis by simp
next
  case (Cons a1 r1)
  show ?thesis
  proof (cases r1)
    case Nil with Cons show ?thesis by simp
  next
    case (Cons a2 r2)
    with \<open>r = a1 # r1\<close> show ?thesis by (cases r2) auto
  qed
qed

lemma drop_bit_16:
  assumes "0 \<le> (i::int)" "i < 0x10000"
  shows "drop_bit 8 i AND 0xFF = drop_bit 8 i \<and> 0 \<le> drop_bit 8 i \<and> drop_bit 8 i < 256"
proof -
  have "0 \<le> i div 256 \<and> i div 256 < 256" using assms by presburger
  then show ?thesis by (simp add: and_255 drop_bit_eq_div)
qed

text \<open>
  Claim C1. For a 16-bit identifier, \<open>read_data_by_identifier\<close> returns data \<open>x\<close>
  exactly when the request/response loop resolved the frame
  \<open>[0x62, id >> 8, id & 0xFF] + x\<close>, so \<open>x\<close> is the response from offset 3 onward; in
  every other case (no response, wrong service byte, other identifier, short frame) it
  returns the one value \<open>None\<close>.
\<close>

theorem read_data_by_identifier_accepts:
  assumes "0 \<le> data_id" "data_id < 0x10000"
  shows "(\<forall>x. fst (read_data_by_identifier p data_id) = Inr (Some x) \<longleftrightarrow>
              fst (send_uds p [0x22, drop_bit 8 data_id, data_id AND 0xFF]) =
                Inr (Some (0x62 # word_of_int (drop_bit 8 data_id) # word_of_int (data_id AND 0xFF) # x)))
       \<and> (fst (read_data_by_identifier p data_id) = Inr None
          \<or> (\<exists>x. fst (read_data_by_identifier p data_id) = Inr (Some x)))"
proof -
  note hi = drop_bit_16 [OF assms]
  note lo = mask_byte [of data_id]
  let ?sr = "send_uds p [0x22, drop_bit 8 data_id, data_id AND 0xFF]"
  have alt: "fst (read_data_by_identifier p data_id) =
      Inr (case fst ?sr of
              Inr (Some r) \<Rightarrow>
                if 2 < length r \<and> uint (r ! 0) = 0x62 \<and> uint (r ! 1) = drop_bit 8 data_id
                   \<and> uint (r ! 2) = data_id AND 0xFF
                then Some (drop 3 r) else None
            | _ \<Rightarrow> None)"
    using hi by (simp add: read_data_by_identifier_alt Let_def)
  have b0: "\<And>b::byte. uint b = 0x62 \<longleftrightarrow> b = 0x62"
    using byte_eq_iff [of "0x62"] by simp
  have b1: "\<And>b::byte. uint b = drop_bit 8 data_id \<longleftrightarrow> b = word_of_int (drop_bit 8 data_id)"
    using byte_eq_iff hi by blast
  have b2: "\<And>b::byte. uint b = data_id AND 0xFF \<longleftrightarrow> b = word_of_int (data_id AND 0xFF)"
    using byte_eq_iff lo by blast
  have acc: "\<And>(r :: byte list) x. (2 < length r \<and> uint (r ! 0) = 0x62 \<and> uint (r ! 1) = drop_bit 8 data_id
                   \<and> uint (r ! 2) = data_id AND 0xFF \<and> x = drop 3 r)
       \<longleftrightarrow> r = 0x62 # word_of_int (drop_bit 8 data_id) # word_of_int (data_id AND 0xFF) # x"
    by (simp only: list3_iff b0 b1 b2)
  have 1: "fst (read_data_by_identifier p data_id) = Inr (Some x) \<longleftrightarrow>
              fst ?sr = Inr (Some (0x62 # word_of_int (drop_bit 8 data_id) # word_of_int (data_id AND 0xFF) # x))"
    for x
  proof (cases "fst ?sr")
    case (Inl e)
    then show ?thesis by (simp add: alt)
  next
    case (Inr v)
    show ?thesis
    proof (cases v)
      case None
      with Inr show ?thesis by (simp add: alt)
    next
      case (Some r)
      have "fst (read_data_by_identifier p data_id) = Inr (Some x) \<longleftrightarrow>
            (2 < length r \<and> uint (r ! 0) = 0x62 \<and> uint (r ! 1) = drop_bit 8 data_id
                   \<and> uint (r ! 2) = data_id AND 0xFF \<and> x = drop 3 r)"
        unfolding alt Inr Some by auto
      also have "\<dots> \<longleftrightarrow> r = 0x62 # word_of_int (drop_bit 8 data_id) # word_of_int (data_id AND 0xFF) # x"
        by (rule acc)
      finally show ?thesis unfolding Inr Some by simp
    qed
  qed
  have 2: "fst (read_data_by_identifier p data_id) = Inr None
          \<or> (\<exists>x. fst (read_data_by_identifier p data_id) = Inr (Some x))"
    unfolding alt by (auto split: sum.splits option.splits)
  from 1 2 show ?thesis by blast
qed


theorem read_data_by_identifier_accepts_witness:
  "(0::int) \<le> 0xF100 \<and> (0xF100::int) < 0x10000 \<and>
   fst (read_data_by_identifier
         (DSMProtocol (bench [(30, None), (5, Some (0x123, [0x62, 0xF1, 0x00, 0x01])),
                              (7, Some (0x7E8, [0x62, 0xF1, 0x00, 0xAA, 0xBB]))])) 0xF100)
     = Inr (Some [0xAA, 0xBB])"
proof -
  let ?p = "DSMProtocol (bench [(30, None), (5, Some (0x123, [0x62, 0xF1, 0x00, 0x01])),
                              (7, Some (0x7E8, [0x62, 0xF1, 0x00, 0xAA, 0xBB]))])"
  have r: "(0::int) \<le> 0xF100" "(0xF100::int) < 0x10000" by simp_all
  have "fst (send_uds ?p [0x22, drop_bit 8 0xF100, 0xF100 AND 0xFF]) =
          Inr (Some (0x62 # word_of_int (drop_bit 8 0xF100) # word_of_int (0xF100 AND 0xFF) # [0xAA, 0xBB]))"
    by code_simp
  then show ?thesis
    using read_data_by_identifier_accepts [OF r, of ?p] by simp
qed

lemma read_data_by_identifier_written:
  "written (connector (snd (read_data_by_identifier p i))) =
     written (connector p) @
       (if fst (send_can_frame (connector p) (tx_id p)
                  [0x22, word_of_int (drop_bit 8 i AND 0xFF), word_of_int (i AND 0xFF)])
        then [frame_line (tx_id p) [0x22, word_of_int (drop_bit 8 i AND 0xFF), word_of_int (i AND 0xFF)]]
        else [])"
  using send_uds_written [OF rdbi_request, of p i]
  by (simp add: read_data_by_identifier_alt Let_def)

lemma bytes_hex_length: "length (bytes_hex bs) = 2 * length bs"
  by (induction bs) (simp_all add: bytes_hex_def)

text \<open>
  Claim C2. For a 16-bit identifier the bytes \<open>read_data_by_identifier\<close> hands to
  \<open>send_can_frame\<close> are exactly \<open>[0x22, id >> 8, id & 0xFF]\<close>: the serial line gets
  the frame line of these three bytes when the send succeeds, and nothing otherwise.
\<close>

theorem read_data_by_identifier_request:
  assumes "0 \<le> data_id" "data_id < 0x10000"
  shows "let bs = map word_of_int [0x22, drop_bit 8 data_id, data_id AND 0xFF] :: byte list in
     map uint bs = [0x22, drop_bit 8 data_id, data_id AND 0xFF] \<and>
     written (connector (snd (read_data_by_identifier p data_id))) =
       written (connector p) @
         (if fst (send_can_frame (connector p) (tx_id p) bs) then [frame_line (tx_id p) bs] else [])"
proof -
  note hi = drop_bit_16 [OF assms]
  show ?thesis
    using hi mask_byte [of data_id]
    by (simp add: Let_def uint_word_of_int read_data_by_identifier_written)
qed

theorem read_data_by_identifier_request_witness:
  "(0::int) \<le> 0xF190 \<and> (0xF190::int) < 0x10000 \<and>
   written (connector (snd (read_data_by_identifier (DSMProtocol (bench [])) 0xF190))) =
     [''t7E022f190'' @ [CHR 0x0D]]"
proof -
  have r: "(0::int) \<le> 0xF190" "(0xF190::int) < 0x10000" by simp_all
  have bs: "map word_of_int [0x22, drop_bit 8 0xF190, 0xF190 AND 0xFF] = [0x22, 0xF1, 0x90 :: byte]"
    by simp
  show ?thesis
    using read_data_by_identifier_request [OF r, of "DSMProtocol (bench [])"]
    unfolding Let_def bs
    by (simp add: DSMProtocol_def bench_def send_can_frame_def frame_line_def format_03X_def
        digits_X.simps bytes_hex_def hex_lower_def hex_upper_def)
qed

section \<open>The requests of the operations\<close>

lemma send_can_frame_fst: "fst (send_can_frame c i bs) = (\<not> send_fails c)"
  by (auto simp: send_fails_def send_can_frame_def split: list.splits)

lemma start_session_request: "py_bytes [0x10, 0x03] = Inr [0x10, 0x03]"
  by (simp add: py_bytes_def)

lemma seed_request: "py_bytes [0x27, 0x01] = Inr [0x27, 0x01]"
  by (simp add: py_bytes_def)

lemma key_request: "py_bytes ([0x27, 0x02] @ map uint (k :: byte list)) = Inr ([0x27, 0x02] @ k)"
  using py_bytes_uint [of k]
  by (auto simp: py_bytes_def split: if_splits)

lemma rmba_request:
  "py_bytes ([0x23, 0x44, 0x22]
      @ [drop_bit 24 a AND 0xFF, drop_bit 16 a AND 0xFF, drop_bit 8 a AND 0xFF, a AND 0xFF]
      @ [drop_bit 8 n AND 0xFF, n AND 0xFF]) =
   Inr [0x23, 0x44, 0x22, word_of_int (drop_bit 24 a AND 0xFF), word_of_int (drop_bit 16 a AND 0xFF),
        word_of_int (drop_bit 8 a AND 0xFF), word_of_int (a AND 0xFF),
        word_of_int (drop_bit 8 n AND 0xFF), word_of_int (n AND 0xFF)]"
  using mask_byte [of a] mask_byte [of "drop_bit 8 a"] mask_byte [of "drop_bit 16 a"]
    mask_byte [of "drop_bit 24 a"] mask_byte [of n] mask_byte [of "drop_bit 8 n"]
  by (simp add: py_bytes_def)

lemma security_access_1_alt:
  "security_access p 1 key =
     (let sr = send_uds p [0x27, 0x01] in
      (Inr (case fst sr of
              Inr (Some r) \<Rightarrow>
                if 2 < length r \<and> uint (r ! 0) = 0x67 \<and> uint (r ! 1) = 0x01
                then SA_seed (drop 2 r) else SA_None
            | _ \<Rightarrow> SA_None), snd sr))"
proof -
  obtain v where v: "fst (send_uds p [0x27, 0x01]) = Inr v"
    using send_uds_fst [OF seed_request] by blast
  then show ?thesis
    by (cases "send_uds p [0x27, 0x01]")
       (auto simp: security_access_def Let_def getitem_def bindE_def split: option.splits)
qed

lemma security_access_2_alt:
  "k \<noteq> [] \<Longrightarrow> security_access p 2 (Some k) =
     (let sr = send_uds p ([0x27, 0x02] @ map uint k) in
      (Inr (SA_bool (fst sr \<noteq> Inr None)), snd sr))"
proof -
  assume k: "k \<noteq> []"
  obtain v where v: "fst (send_uds p ([0x27, 0x02] @ map uint k)) = Inr v"
    using send_uds_fst [OF key_request] by blast
  then show ?thesis using k
    by (cases "send_uds p ([0x27, 0x02] @ map uint k)")
       (auto simp: security_access_def Let_def split: option.splits)
qed

lemma security_access_other:
  "level \<noteq> 1 \<Longrightarrow> level \<noteq> 2 \<or> key = None \<or> key = Some [] \<Longrightarrow>
   security_access p level key = (Inr SA_None, p)"
  by (auto simp: security_access_def split: option.splits)

lemma read_memory_by_address_alt:
  "read_memory_by_address p a n =
     (let sr = send_uds p ([0x23, 0x44, 0x22]
                 @ [drop_bit 24 a AND 0xFF, drop_bit 16 a AND 0xFF, drop_bit 8 a AND 0xFF, a AND 0xFF]
                 @ [drop_bit 8 n AND 0xFF, n AND 0xFF]) in
      (Inr (case fst sr of
              Inr (Some r) \<Rightarrow> if r \<noteq> [] \<and> uint (r ! 0) = 0x63 then Some (drop 1 r) else None
            | _ \<Rightarrow> None), snd sr))"
proof -
  let ?d = "[0x23, 0x44, 0x22]
                 @ [drop_bit 24 a AND 0xFF, drop_bit 16 a AND 0xFF, drop_bit 8 a AND 0xFF, a AND 0xFF]
                 @ [drop_bit 8 n AND 0xFF, n AND 0xFF]"
  obtain v where v: "fst (send_uds p ?d) = Inr v"
    using send_uds_fst [OF rmba_request] by blast
  then show ?thesis
    by (cases "send_uds p ?d")
       (auto simp: read_memory_by_address_def Let_def getitem_def bindE_def split: option.splits)
qed

subsection \<open>Resolution of a request\<close>

lemma send_uds_result:
  "py_bytes data = Inr bs \<Longrightarrow>
   fst (send_uds p data) =
     Inr (if send_fails (connector p) then None else first_reply (rx_id p) 0 (inbox (connector p)))"
  by (simp add: send_uds_fst send_can_frame_fst)

lemma send_uds_wire:
  "py_bytes data = Inr bs \<Longrightarrow>
   written (connector (snd (send_uds p data))) =
     written (connector p) @ (if send_fails (connector p) then [] else [frame_line (tx_id p) bs])"
  by (simp add: send_uds_written send_can_frame_fst)

lemma send_uds_idle:
  "py_bytes data = Inr bs \<Longrightarrow> send_fails (connector p) \<Longrightarrow>
   inbox (connector (snd (send_uds p data))) = inbox (connector p) \<and>
   now (connector (snd (send_uds p data))) = now (connector p)"
  by (simp add: send_uds_no_poll send_can_frame_fst)

lemma rmba_request_flat:
  "py_bytes [0x23, 0x44, 0x22, drop_bit 24 a AND 0xFF, drop_bit 16 a AND 0xFF,
             drop_bit 8 a AND 0xFF, a AND 0xFF, drop_bit 8 n AND 0xFF, n AND 0xFF] =
   Inr [0x23, 0x44, 0x22, word_of_int (drop_bit 24 a AND 0xFF), word_of_int (drop_bit 16 a AND 0xFF),
        word_of_int (drop_bit 8 a AND 0xFF), word_of_int (a AND 0xFF),
        word_of_int (drop_bit 8 n AND 0xFF), word_of_int (n AND 0xFF)]"
  using rmba_request [of a n] by simp

lemma key_request_flat:
  "py_bytes (0x27 # 0x02 # map uint (k :: byte list)) = Inr (0x27 # 0x02 # k)"
  using key_request [of k] by simp

text \<open>
  Claim C5, as the code has it. When the send fails, \<open>_send_uds\<close> returns \<open>None\<close> at
  once, without a receive call (the inbox and the clock are untouched), and so do
  \<open>start_session\<close>, \<open>read_data_by_identifier\<close>, level-1 \<open>security_access\<close> and
  \<open>read_memory_by_address\<close>; level-2 \<open>security_access\<close> returns \<open>False\<close> instead.
  When the send succeeds, the loop returns \<open>d\<close> exactly when \<open>d\<close> is the payload of
  the first frame with the receive id, every earlier receive call gave no frame or a
  frame with another id, and the receive call that returns it starts less than 2000 ms
  after the request; otherwise it returns \<open>None\<close>.
\<close>

theorem send_uds_resolves:
  assumes "py_bytes data = Inr bs"
  shows
  "(send_fails (connector p) \<longrightarrow>
      fst (send_uds p data) = Inr None \<and>
      inbox (connector (snd (send_uds p data))) = inbox (connector p) \<and>
      now (connector (snd (send_uds p data))) = now (connector p) \<and>
      fst (start_session p) = Inr None \<and>
      fst (read_data_by_identifier p i) = Inr None \<and>
      fst (security_access p 1 key) = Inr SA_None \<and>
      fst (read_memory_by_address p a n) = Inr None \<and>
      (ky \<noteq> [] \<longrightarrow> fst (security_access p 2 (Some ky)) = Inr (SA_bool False)))
   \<and> (\<not> send_fails (connector p) \<longrightarrow>
      (\<forall>d. fst (send_uds p data) = Inr (Some d) \<longleftrightarrow>
         (\<exists>k<length (inbox (connector p)).
             snd (inbox (connector p) ! k) = Some (rx_id p, d)
           \<and> (\<forall>j<k. \<forall>d'. snd (inbox (connector p) ! j) \<noteq> Some (rx_id p, d'))
           \<and> int (sum_list (map fst (take k (inbox (connector p))))) < 2000)))
   \<and> (fst (send_uds p data) = Inr None \<or> (\<exists>d. fst (send_uds p data) = Inr (Some d)))"
proof (intro conjI impI allI)
  assume f: "send_fails (connector p)"
  show "fst (send_uds p data) = Inr None"
    using assms f by (simp add: send_uds_result)
  show "inbox (connector (snd (send_uds p data))) = inbox (connector p)"
    and "now (connector (snd (send_uds p data))) = now (connector p)"
    using send_uds_idle [OF assms f] by simp_all
  show "fst (start_session p) = Inr None"
    using f by (simp add: start_session_def send_uds_result [OF start_session_request])
  show "fst (read_data_by_identifier p i) = Inr None"
    using f by (simp add: read_data_by_identifier_alt Let_def send_uds_result [OF rdbi_request])
  show "fst (security_access p 1 key) = Inr SA_None"
    using f by (simp add: security_access_1_alt Let_def send_uds_result [OF seed_request])
  show "fst (read_memory_by_address p a n) = Inr None"
    using f by (simp add: read_memory_by_address_alt Let_def send_uds_result [OF rmba_request_flat])
  show "fst (security_access p 2 (Some ky)) = Inr (SA_bool False)" if "ky \<noteq> []"
    using f that by (simp add: security_access_2_alt Let_def send_uds_result [OF key_request_flat])
next
  fix d
  assume "\<not> send_fails (connector p)"
  then show "fst (send_uds p data) = Inr (Some d) \<longleftrightarrow>
         (\<exists>k<length (inbox (connector p)).
             snd (inbox (connector p) ! k) = Some (rx_id p, d)
           \<and> (\<forall>j<k. \<forall>d'. snd (inbox (connector p) ! j) \<noteq> Some (rx_id p, d'))
           \<and> int (sum_list (map fst (take k (inbox (connector p))))) < 2000)"
    using first_reply_Some_iff [of "rx_id p" 0 "inbox (connector p)" d]
    by (simp add: send_uds_result [OF assms])
next
  show "fst (send_uds p data) = Inr None \<or> (\<exists>d. fst (send_uds p data) = Inr (Some d))"
    by (cases "first_reply (rx_id p) 0 (inbox (connector p))")
       (simp_all add: send_uds_result [OF assms])
qed

theorem send_uds_resolves_witness:
  "py_bytes [0x10, 0x03] = Inr [0x10, 0x03] \<and>
   \<not> send_fails (bench [(30, None), (5, Some (0x123, [0x01])), (7, Some (0x7E8, [0x50, 0x03]))]) \<and>
   fst (send_uds (DSMProtocol (bench [(30, None), (5, Some (0x123, [0x01])), (7, Some (0x7E8, [0x50, 0x03]))]))
          [0x10, 0x03]) = Inr (Some [0x50, 0x03]) \<and>
   send_fails unplugged \<and>
   fst (send_uds (DSMProtocol unplugged) [0x10, 0x03]) = Inr None \<and>
   fst (security_access (DSMProtocol unplugged) 2 (Some [0x11])) = Inr (SA_bool False)"
proof -
  let ?es = "[(30, None), (5, Some (0x123, [0x01])), (7, Some (0x7E8, [0x50, 0x03]))]
               :: (nat \<times> can_frame option) list"
  have ok: "\<not> send_fails (bench ?es)"
    by (simp add: send_fails_def send_can_frame_def bench_def)
  have off: "send_fails unplugged"
    by (simp add: send_fails_def send_can_frame_def unplugged_def)
  have k: "\<exists>k<length ?es. snd (?es ! k) = Some (0x7E8, [0x50, 0x03])
      \<and> (\<forall>j<k. \<forall>d'. snd (?es ! j) \<noteq> Some (0x7E8, d'))
      \<and> int (sum_list (map fst (take k ?es))) < 2000"
    by (rule exI [of _ 2]) (simp add: less_Suc_eq nth_Cons')
  have 1: "fst (send_uds (DSMProtocol (bench ?es)) [0x10, 0x03]) = Inr (Some [0x50, 0x03])"
    using send_uds_resolves [OF start_session_request, of "DSMProtocol (bench ?es)"] ok k
    by (simp add: DSMProtocol_def bench_def)
  have 2: "fst (send_uds (DSMProtocol unplugged) [0x10, 0x03]) = Inr None
      \<and> fst (security_access (DSMProtocol unplugged) 2 (Some [0x11])) = Inr (SA_bool False)"
    using send_uds_resolves [OF start_session_request, of "DSMProtocol unplugged" _ _ _ _ "[0x11]"] off
    by (simp add: DSMProtocol_def)
  from ok off 1 2 start_session_request show ?thesis by simp
qed

text \<open>
  Claim C5 as stated fails for level-2 \<open>security_access\<close>: on a connector that cannot
  send it returns \<open>False\<close>, not \<open>None\<close>.
\<close>

theorem send_fails_level_2_counterexample:
  "send_fails (connector (DSMProtocol unplugged)) \<and>
   fst (security_access (DSMProtocol unplugged) 2 (Some [0x11])) = Inr (SA_bool False) \<and>
   fst (security_access (DSMProtocol unplugged) 2 (Some [0x11])) \<noteq> Inr SA_None"
  by code_simp

subsection \<open>security_access\<close>

lemma list2_iff:
  "(r = a # b # x \<and> x \<noteq> []) \<longleftrightarrow> (2 < length r \<and> r ! 0 = a \<and> r ! 1 = b \<and> x = drop 2 r)"
proof (cases r)
  case Nil then show ?thesis by simp
next
  case (Cons a1 r1)
  then show ?thesis by (cases r1) auto
qed

lemma list1_iff: "(r = a # x) \<longleftrightarrow> (r \<noteq> [] \<and> r ! 0 = a \<and> x = drop 1 r)"
  by (cases r) auto

lemma security_access_1_written:
  "written (connector (snd (security_access p 1 key))) =
     written (connector p) @ (if send_fails (connector p) then [] else [frame_line (tx_id p) [0x27, 0x01]])"
  by (simp add: security_access_1_alt Let_def send_uds_wire [OF seed_request])

text \<open>
  Claim C6, as the code has it. Level-1 \<open>security_access\<close> transmits exactly
  \<open>[0x27, 0x01]\<close> and returns the seed \<open>s\<close> exactly when the resolved response is
  \<open>[0x67, 0x01] + s\<close> with \<open>s\<close> not empty (the response has more than two bytes);
  otherwise it returns \<open>None\<close>.
\<close>

theorem security_access_seed:
  "written (connector (snd (security_access p 1 key))) =
     written (connector p) @ (if send_fails (connector p) then [] else [frame_line (tx_id p) [0x27, 0x01]])
   \<and> (\<forall>s. fst (security_access p 1 key) = Inr (SA_seed s) \<longleftrightarrow>
            s \<noteq> [] \<and> fst (send_uds p [0x27, 0x01]) = Inr (Some (0x67 # 0x01 # s)))
   \<and> (fst (security_access p 1 key) = Inr SA_None
        \<or> (\<exists>s. fst (security_access p 1 key) = Inr (SA_seed s)))"
proof (intro conjI allI)
  let ?sr = "send_uds p [0x27, 0x01]"
  have alt: "fst (security_access p 1 key) =
      Inr (case fst ?sr of
              Inr (Some r) \<Rightarrow>
                if 2 < length r \<and> uint (r ! 0) = 0x67 \<and> uint (r ! 1) = 0x01
                then SA_seed (drop 2 r) else SA_None
            | _ \<Rightarrow> SA_None)"
    by (simp add: security_access_1_alt Let_def)
  have b0: "\<And>b::byte. uint b = 0x67 \<longleftrightarrow> b = 0x67"
    using byte_eq_iff [of "0x67"] by simp
  have b1: "\<And>b::byte. uint b = 0x01 \<longleftrightarrow> b = 0x01"
    using byte_eq_iff [of "0x01"] by simp
  have acc: "\<And>(r :: byte list) s. (2 < length r \<and> uint (r ! 0) = 0x67 \<and> uint (r ! 1) = 0x01 \<and> s = drop 2 r)
       \<longleftrightarrow> (r = 0x67 # 0x01 # s \<and> s \<noteq> [])"
    by (simp only: list2_iff b0 b1)
  show "written (connector (snd (security_access p 1 key))) =
     written (connector p) @ (if send_fails (connector p) then [] else [frame_line (tx_id p) [0x27, 0x01]])"
    by (rule security_access_1_written)
  show "fst (security_access p 1 key) = Inr (SA_seed s) \<longleftrightarrow>
            s \<noteq> [] \<and> fst ?sr = Inr (Some (0x67 # 0x01 # s))" for s
  proof (cases "fst ?sr")
    case (Inl e)
    then show ?thesis by (simp add: alt)
  next
    case (Inr v)
    show ?thesis
    proof (cases v)
      case None
      with Inr show ?thesis by (simp add: alt)
    next
      case (Some r)
      have "fst (security_access p 1 key) = Inr (SA_seed s) \<longleftrightarrow>
            (2 < length r \<and> uint (r ! 0) = 0x67 \<and> uint (r ! 1) = 0x01 \<and> s = drop 2 r)"
        unfolding alt Inr Some by auto
      also have "\<dots> \<longleftrightarrow> (r = 0x67 # 0x01 # s \<and> s \<noteq> [])"
        by (rule acc)
      finally show ?thesis unfolding Inr Some by auto
    qed
  qed
  show "fst (security_access p 1 key) = Inr SA_None
        \<or> (\<exists>s. fst (security_access p 1 key) = Inr (SA_seed s))"
    unfolding alt by (auto split: sum.splits option.splits)
qed

theorem security_access_seed_witness:
  "fst (send_uds (DSMProtocol (bench [(12, Some (0x7E8, [0x67, 0x01, 0xAA, 0xBB]))])) [0x27, 0x01])
     = Inr (Some [0x67, 0x01, 0xAA, 0xBB]) \<and>
   fst (security_access (DSMProtocol (bench [(12, Some (0x7E8, [0x67, 0x01, 0xAA, 0xBB]))])) 1 None)
     = Inr (SA_seed [0xAA, 0xBB])"
proof -
  let ?p = "DSMProtocol (bench [(12, Some (0x7E8, [0x67, 0x01, 0xAA, 0xBB]))])"
  have "fst (send_uds ?p [0x27, 0x01]) = Inr (Some [0x67, 0x01, 0xAA, 0xBB])"
    by code_simp
  then show ?thesis
    using security_access_seed [of ?p None] by simp
qed

text \<open>
  Claim C6 as stated fails for the two-byte response \<open>[0x67, 0x01]\<close>: bytes 0 and 1
  are as required, yet the result is \<open>None\<close>, not the (empty) rest of the response.
\<close>

theorem security_access_empty_seed_counterexample:
  "fst (send_uds (DSMProtocol (bench [(12, Some (0x7E8, [0x67, 0x01]))])) [0x27, 0x01])
     = Inr (Some [0x67, 0x01]) \<and>
   fst (security_access (DSMProtocol (bench [(12, Some (0x7E8, [0x67, 0x01]))])) 1 None)
     = Inr SA_None \<and>
   fst (security_access (DSMProtocol (bench [(12, Some (0x7E8, [0x67, 0x01]))])) 1 None)
     \<noteq> Inr (SA_seed (drop 2 [0x67, 0x01]))"
  by code_simp

lemma first_reply_None_iff:
  "first_reply rx e es \<noteq> None \<longleftrightarrow>
     (\<exists>k<length es. (\<exists>d. snd (es ! k) = Some (rx, d))
        \<and> e + int (sum_list (map fst (take k es))) < 2000)"
proof (induction es arbitrary: e)
  case Nil
  then show ?case by (simp add: first_reply_Nil)
next
  case (Cons ev es)
  obtain dt r where ev: "ev = (dt, r)" by (cases ev)
  show ?case
  proof (cases "e < 2000")
    case False
    then show ?thesis by (auto simp: first_reply_late)
  next
    case True
    have step: "(\<exists>k<length (ev # es). (\<exists>d. snd ((ev # es) ! k) = Some (rx, d))
          \<and> e + int (sum_list (map fst (take k (ev # es)))) < 2000)
       \<longleftrightarrow> ((\<exists>d. r = Some (rx, d)) \<or>
            (\<exists>k<length es. (\<exists>d. snd (es ! k) = Some (rx, d))
              \<and> (e + int dt) + int (sum_list (map fst (take k es))) < 2000))"
      using True by (simp add: ev Ex_less_Suc2 add.assoc)
    show ?thesis
      unfolding step Cons.IH [symmetric]
      using True by (cases r) (auto simp: ev first_reply_Cons split: if_splits)
  qed
qed

lemma security_access_2_written:
  "k \<noteq> [] \<Longrightarrow> written (connector (snd (security_access p 2 (Some k)))) =
     written (connector p) @
       (if send_fails (connector p) then [] else [frame_line (tx_id p) ([0x27, 0x02] @ k)])"
  by (simp add: security_access_2_alt Let_def send_uds_wire [OF key_request_flat])

text \<open>
  Claim C7, as the code has it. For every non-empty key, level-2 \<open>security_access\<close>
  transmits \<open>[0x27, 0x02]\<close> followed by the key bytes and returns a bool, which is
  \<open>True\<close> exactly when the send succeeded and some receive call that started less
  than 2000 ms after the request returned a frame with the receive id, whatever its
  payload.
\<close>

theorem security_access_key:
  assumes "k \<noteq> []"
  shows "written (connector (snd (security_access p 2 (Some k)))) =
     written (connector p) @
       (if send_fails (connector p) then [] else [frame_line (tx_id p) ([0x27, 0x02] @ k)])
   \<and> fst (security_access p 2 (Some k)) =
       Inr (SA_bool (\<not> send_fails (connector p) \<and>
          (\<exists>j<length (inbox (connector p)).
              (\<exists>d. snd (inbox (connector p) ! j) = Some (rx_id p, d))
              \<and> int (sum_list (map fst (take j (inbox (connector p))))) < 2000)))"
proof
  show "written (connector (snd (security_access p 2 (Some k)))) =
     written (connector p) @
       (if send_fails (connector p) then [] else [frame_line (tx_id p) ([0x27, 0x02] @ k)])"
    using assms by (rule security_access_2_written)
  have "fst (send_uds p (0x27 # 0x02 # map uint k)) \<noteq> Inr None \<longleftrightarrow>
      \<not> send_fails (connector p) \<and> first_reply (rx_id p) 0 (inbox (connector p)) \<noteq> None"
    by (simp add: send_uds_result [OF key_request_flat])
  then show "fst (security_access p 2 (Some k)) =
       Inr (SA_bool (\<not> send_fails (connector p) \<and>
          (\<exists>j<length (inbox (connector p)).
              (\<exists>d. snd (inbox (connector p) ! j) = Some (rx_id p, d))
              \<and> int (sum_list (map fst (take j (inbox (connector p))))) < 2000)))"
    using assms first_reply_None_iff [of "rx_id p" 0 "inbox (connector p)"]
    by (simp add: security_access_2_alt Let_def)
qed

theorem security_access_key_witness:
  "[0xDE, 0xAD] \<noteq> ([] :: byte list) \<and>
   written (connector (snd (security_access (DSMProtocol (bench [(9, Some (0x7E8, [0x7F, 0x27, 0x35]))])) 2
       (Some [0xDE, 0xAD])))) = [''t7E02702dead'' @ [CHR 0x0D]] \<and>
   fst (security_access (DSMProtocol (bench [(9, Some (0x7E8, [0x7F, 0x27, 0x35]))])) 2 (Some [0xDE, 0xAD]))
     = Inr (SA_bool True)"
proof -
  let ?es = "[(9, Some (0x7E8, [0x7F, 0x27, 0x35]))] :: (nat \<times> can_frame option) list"
  have k: "[0xDE, 0xAD] \<noteq> ([] :: byte list)" by simp
  have ok: "\<not> send_fails (bench ?es)"
    by (simp add: send_fails_def send_can_frame_def bench_def)
  have line: "frame_line 0x7E0 [0x27, 0x02, 0xDE, 0xAD] = ''t7E02702dead'' @ [CHR 0x0D]"
    by (simp add: frame_line_def format_03X_def digits_X.simps bytes_hex_def hex_lower_def hex_upper_def)
  show ?thesis
    using security_access_key [OF k, of "DSMProtocol (bench ?es)"] ok line
    by (simp add: DSMProtocol_def bench_def)
qed

text \<open>
  Claim C7 as stated fails for the empty key: nothing is transmitted and the result is
  \<open>None\<close>, not a bool, although a response frame is waiting.
\<close>

theorem security_access_empty_key_counterexample:
  "security_access (DSMProtocol (bench [(9, Some (0x7E8, [0x67, 0x02]))])) 2 (Some [])
     = (Inr SA_None, DSMProtocol (bench [(9, Some (0x7E8, [0x67, 0x02]))])) \<and>
   written (connector (snd (security_access (DSMProtocol (bench [(9, Some (0x7E8, [0x67, 0x02]))])) 2 (Some []))))
     = []"
  by (simp add: security_access_def DSMProtocol_def bench_def)

subsection \<open>read_memory_by_address\<close>

lemma read_memory_by_address_written:
  "written (connector (snd (read_memory_by_address p a n))) =
     written (connector p) @
       (if send_fails (connector p) then []
        else [frame_line (tx_id p)
               [0x23, 0x44, 0x22, word_of_int (drop_bit 24 a AND 0xFF), word_of_int (drop_bit 16 a AND 0xFF),
                word_of_int (drop_bit 8 a AND 0xFF), word_of_int (a AND 0xFF),
                word_of_int (drop_bit 8 n AND 0xFF), word_of_int (n AND 0xFF)]])"
  by (simp add: read_memory_by_address_alt Let_def send_uds_wire [OF rmba_request_flat])

lemma drop_bit_32:
  assumes "0 \<le> (a::int)" "a < 0x100000000"
  shows "drop_bit 24 a AND 0xFF = drop_bit 24 a \<and> 0 \<le> drop_bit 24 a \<and> drop_bit 24 a < 256"
proof -
  have "a div 16777216 \<le> 4294967295 div 16777216"
    using assms by (intro zdiv_mono1) simp_all
  then have "a div 16777216 < 256" by simp
  moreover have "0 \<le> a div 16777216"
    using assms by (simp add: pos_imp_zdiv_nonneg_iff)
  ultimately show ?thesis by (simp add: and_255 drop_bit_eq_div)
qed

text \<open>
  Claim C4. For a 32-bit address and a 16-bit length, the bytes
  \<open>read_memory_by_address\<close> hands to \<open>send_can_frame\<close> are exactly the nine bytes
  \<open>0x23, 0x44, 0x22\<close>, the address big-endian and the length big-endian; it returns
  \<open>x\<close> exactly when the resolved response is \<open>[0x63] + x\<close>, and \<open>None\<close> otherwise.
\<close>

theorem read_memory_by_address_request_response:
  assumes "0 \<le> a" "a < 0x100000000" "0 \<le> n" "n < 0x10000"
  shows "let req = [0x23, 0x44, 0x22, drop_bit 24 a, drop_bit 16 a AND 0xFF, drop_bit 8 a AND 0xFF,
                    a AND 0xFF, drop_bit 8 n, n AND 0xFF];
             bs = map word_of_int req :: byte list in
     map uint bs = req \<and>
     written (connector (snd (read_memory_by_address p a n))) =
       written (connector p) @
         (if fst (send_can_frame (connector p) (tx_id p) bs) then [frame_line (tx_id p) bs] else []) \<and>
     (\<forall>x. fst (read_memory_by_address p a n) = Inr (Some x) \<longleftrightarrow>
            fst (send_uds p req) = Inr (Some (0x63 # x))) \<and>
     (fst (read_memory_by_address p a n) = Inr None
        \<or> (\<exists>x. fst (read_memory_by_address p a n) = Inr (Some x)))"
proof -
  note hi = drop_bit_32 [OF assms(1,2)]
  note nhi = drop_bit_16 [OF assms(3,4)]
  let ?req = "[0x23, 0x44, 0x22, drop_bit 24 a, drop_bit 16 a AND 0xFF, drop_bit 8 a AND 0xFF,
                    a AND 0xFF, drop_bit 8 n, n AND 0xFF]"
  let ?sr = "send_uds p ?req"
  have alt: "fst (read_memory_by_address p a n) =
      Inr (case fst ?sr of
              Inr (Some r) \<Rightarrow> if r \<noteq> [] \<and> uint (r ! 0) = 0x63 then Some (drop 1 r) else None
            | _ \<Rightarrow> None)"
    using hi nhi by (simp add: read_memory_by_address_alt Let_def)
  have b0: "\<And>b::byte. uint b = 0x63 \<longleftrightarrow> b = 0x63"
    using byte_eq_iff [of "0x63"] by simp
  have acc: "\<And>(r :: byte list) x. (r \<noteq> [] \<and> uint (r ! 0) = 0x63 \<and> x = drop 1 r) \<longleftrightarrow> r = 0x63 # x"
    by (simp only: list1_iff b0)
  have 0: "map uint (map word_of_int ?req :: byte list) = ?req"
    using hi nhi mask_byte [of a] mask_byte [of "drop_bit 8 a"] mask_byte [of "drop_bit 16 a"]
      mask_byte [of n]
    by (simp add: uint_word_of_int)
  have 1: "written (connector (snd (read_memory_by_address p a n))) =
       written (connector p) @
         (if fst (send_can_frame (connector p) (tx_id p) (map word_of_int ?req))
          then [frame_line (tx_id p) (map word_of_int ?req)] else [])"
    using hi nhi by (simp add: read_memory_by_address_written send_can_frame_fst)
  have 2: "fst (read_memory_by_address p a n) = Inr (Some x) \<longleftrightarrow>
            fst ?sr = Inr (Some (0x63 # x))" for x
  proof (cases "fst ?sr")
    case (Inl e)
    then show ?thesis by (simp add: alt)
  next
    case (Inr v)
    show ?thesis
    proof (cases v)
      case None
      with Inr show ?thesis by (simp add: alt)
    next
      case (Some r)
      have "fst (read_memory_by_address p a n) = Inr (Some x) \<longleftrightarrow>
            (r \<noteq> [] \<and> uint (r ! 0) = 0x63 \<and> x = drop 1 r)"
        unfolding alt Inr Some by auto
      also have "\<dots> \<longleftrightarrow> r = 0x63 # x"
        by (rule acc)
      finally show ?thesis unfolding Inr Some by simp
    qed
  qed
  have 3: "fst (read_memory_by_address p a n) = Inr None
        \<or> (\<exists>x. fst (read_memory_by_address p a n) = Inr (Some x))"
    unfolding alt by (auto split: sum.splits option.splits)
  show ?thesis unfolding Let_def using 0 1 2 3 by (intro conjI allI)
qed

theorem read_memory_by_address_request_response_witness:
  "(0::int) \<le> 0x12345678 \<and> (0x12345678::int) < 0x100000000 \<and> (0::int) \<le> 0x0100 \<and> (0x0100::int) < 0x10000 \<and>
   written (connector (snd (read_memory_by_address
       (DSMProtocol (bench [(4, Some (0x7E8, [0x63, 0xDE, 0xAD]))])) 0x12345678 0x0100)))
     = [''t7E0234422123456780100'' @ [CHR 0x0D]] \<and>
   fst (read_memory_by_address
       (DSMProtocol (bench [(4, Some (0x7E8, [0x63, 0xDE, 0xAD]))])) 0x12345678 0x0100)
     = Inr (Some [0xDE, 0xAD])"
proof -
  let ?p = "DSMProtocol (bench [(4, Some (0x7E8, [0x63, 0xDE, 0xAD]))])"
  have r: "(0::int) \<le> 0x12345678" "(0x12345678::int) < 0x100000000" "(0::int) \<le> 0x0100" "(0x0100::int) < 0x10000"
    by simp_all
  have req: "[0x23, 0x44, 0x22, drop_bit 24 0x12345678, drop_bit 16 0x12345678 AND 0xFF,
       drop_bit 8 0x12345678 AND 0xFF, 0x12345678 AND 0xFF, drop_bit 8 0x0100, 0x0100 AND 0xFF]
     = [0x23, 0x44, 0x22, 0x12, 0x34, 0x56, 0x78, 0x01, 0x00 :: int]"
    by simp
  have s: "fst (send_uds ?p [0x23, 0x44, 0x22, 0x12, 0x34, 0x56, 0x78, 0x01, 0x00]) = Inr (Some (0x63 # [0xDE, 0xAD]))"
    by code_simp
  have line: "frame_line 0x7E0 [0x23, 0x44, 0x22, 0x12, 0x34, 0x56, 0x78, 0x01, 0x00]
      = ''t7E0234422123456780100'' @ [CHR 0x0D]"
    by (simp add: frame_line_def format_03X_def digits_X.simps bytes_hex_def hex_lower_def hex_upper_def)
  show ?thesis
    using read_memory_by_address_request_response [OF r, of ?p] s line
    unfolding Let_def req
    by (simp add: DSMProtocol_def bench_def send_can_frame_def)
qed

section \<open>What goes on the wire\<close>

lemma start_session_written:
  "written (connector (snd (start_session p))) =
     written (connector p) @ (if send_fails (connector p) then [] else [frame_line (tx_id p) [0x10, 0x03]])"
  by (simp add: start_session_def send_uds_wire [OF start_session_request])

text \<open>
  Claim C3, as the code has it. No operation and no \<open>send_can_frame\<close> checks the
  length of the payload: each operation writes at most one frame line, which carries its
  request bytes as two hex characters each. The request has 2 bytes for \<open>start_session\<close>
  and level-1 \<open>security_access\<close>, 3 for \<open>read_data_by_identifier\<close>, 2 plus the key
  length for level-2 \<open>security_access\<close>, and always 9 for \<open>read_memory_by_address\<close>.
\<close>

theorem transmitted_payload_lengths:
  "(let bs = [0x10, 0x03] in
      length bs = 2 \<and>
      written (connector (snd (start_session p))) =
        written (connector p) @ (if send_fails (connector p) then [] else [frame_line (tx_id p) bs]))
   \<and> (let bs = [0x22, word_of_int (drop_bit 8 i AND 0xFF), word_of_int (i AND 0xFF)] in
      length bs = 3 \<and>
      written (connector (snd (read_data_by_identifier p i))) =
        written (connector p) @ (if send_fails (connector p) then [] else [frame_line (tx_id p) bs]))
   \<and> (let bs = [0x27, 0x01] in
      length bs = 2 \<and>
      written (connector (snd (security_access p 1 key))) =
        written (connector p) @ (if send_fails (connector p) then [] else [frame_line (tx_id p) bs]))
   \<and> (k \<noteq> [] \<longrightarrow> (let bs = [0x27, 0x02] @ k in
      length bs = 2 + length k \<and>
      written (connector (snd (security_access p 2 (Some k)))) =
        written (connector p) @ (if send_fails (connector p) then [] else [frame_line (tx_id p) bs])))
   \<and> (let bs = [0x23, 0x44, 0x22, word_of_int (drop_bit 24 a AND 0xFF),
                 word_of_int (drop_bit 16 a AND 0xFF), word_of_int (drop_bit 8 a AND 0xFF),
                 word_of_int (a AND 0xFF), word_of_int (drop_bit 8 n AND 0xFF), word_of_int (n AND 0xFF)] in
      length bs = 9 \<and>
      written (connector (snd (read_memory_by_address p a n))) =
        written (connector p) @ (if send_fails (connector p) then [] else [frame_line (tx_id p) bs]))
   \<and> frame_line c d = CHR ''t'' # format_03X c @ bytes_hex d @ [CHR 0x0D]
   \<and> length (bytes_hex d) = 2 * length d"
proof (intro conjI impI)
  show "let bs = [0x10, 0x03] in
      length bs = 2 \<and>
      written (connector (snd (start_session p))) =
        written (connector p) @ (if send_fails (connector p) then [] else [frame_line (tx_id p) bs])"
    by (simp add: start_session_written)
  show "let bs = [0x22, word_of_int (drop_bit 8 i AND 0xFF), word_of_int (i AND 0xFF)] in
      length bs = 3 \<and>
      written (connector (snd (read_data_by_identifier p i))) =
        written (connector p) @ (if send_fails (connector p) then [] else [frame_line (tx_id p) bs])"
    by (simp add: read_data_by_identifier_written send_can_frame_fst)
  show "let bs = [0x27, 0x01] in
      length bs = 2 \<and>
      written (connector (snd (security_access p 1 key))) =
        written (connector p) @ (if send_fails (connector p) then [] else [frame_line (tx_id p) bs])"
    by (simp add: security_access_1_written)
  show "let bs = [0x27, 0x02] @ k in
      length bs = 2 + length k \<and>
      written (connector (snd (security_access p 2 (Some k)))) =
        written (connector p) @ (if send_fails (connector p) then [] else [frame_line (tx_id p) bs])"
    if "k \<noteq> []"
    using security_access_2_written [OF that, of p] by (simp add: Let_def)
  show "let bs = [0x23, 0x44, 0x22, word_of_int (drop_bit 24 a AND 0xFF),
                 word_of_int (drop_bit 16 a AND 0xFF), word_of_int (drop_bit 8 a AND 0xFF),
                 word_of_int (a AND 0xFF), word_of_int (drop_bit 8 n AND 0xFF), word_of_int (n AND 0xFF)] in
      length bs = 9 \<and>
      written (connector (snd (read_memory_by_address p a n))) =
        written (connector p) @ (if send_fails (connector p) then [] else [frame_line (tx_id p) bs])"
    by (simp add: read_memory_by_address_written)
  show "frame_line c d = CHR ''t'' # format_03X c @ bytes_hex d @ [CHR 0x0D]"
    by (simp add: frame_line_def)
  show "length (bytes_hex d) = 2 * length d"
    by (rule bytes_hex_length)
qed

theorem transmitted_payload_lengths_witness:
  "[0x01, 0x02, 0x03, 0x04, 0x05, 0x06, 0x07] \<noteq> ([] :: byte list) \<and>
   written (connector (snd (security_access (DSMProtocol (bench [])) 2
       (Some [0x01, 0x02, 0x03, 0x04, 0x05, 0x06, 0x07])))) =
     [frame_line 0x7E0 [0x27, 0x02, 0x01, 0x02, 0x03, 0x04, 0x05, 0x06, 0x07]] \<and>
   length (bytes_hex [0x27, 0x02, 0x01, 0x02, 0x03, 0x04, 0x05, 0x06, 0x07]) = 18"
proof -
  have k: "[0x01, 0x02, 0x03, 0x04, 0x05, 0x06, 0x07] \<noteq> ([] :: byte list)" by simp
  have ok: "\<not> send_fails (bench [])"
    by (simp add: send_fails_def send_can_frame_def bench_def)
  show ?thesis
    using transmitted_payload_lengths [of "DSMProtocol (bench [])" _ _ "[0x01, 0x02, 0x03, 0x04, 0x05, 0x06, 0x07]"
        _ _ _ "[0x27, 0x02, 0x01, 0x02, 0x03, 0x04, 0x05, 0x06, 0x07]"] ok
    by (simp add: Let_def DSMProtocol_def bench_def)
qed

text \<open>
  Claim C3 as stated fails for \<open>read_memory_by_address\<close>: its frame has a payload of
  9 bytes, 18 hex characters.
\<close>

theorem read_memory_by_address_frame_counterexample:
  "written (connector (snd (read_memory_by_address (DSMProtocol (bench [])) 0x12345678 0x0100))) =
     [frame_line 0x7E0 [0x23, 0x44, 0x22, 0x12, 0x34, 0x56, 0x78, 0x01, 0x00]]
   \<and> frame_line 0x7E0 [0x23, 0x44, 0x22, 0x12, 0x34, 0x56, 0x78, 0x01, 0x00] =
       ''t7E0234422123456780100'' @ [CHR 0x0D]
   \<and> \<not> length [0x23, 0x44, 0x22, 0x12, 0x34, 0x56, 0x78, 0x01, 0x00 :: byte] \<le> 8
   \<and> \<not> length (bytes_hex [0x23, 0x44, 0x22, 0x12, 0x34, 0x56, 0x78, 0x01, 0x00]) \<le> 16"
proof -
  have ok: "\<not> send_fails (bench [])"
    by (simp add: send_fails_def send_can_frame_def bench_def)
  have "written (connector (snd (read_memory_by_address (DSMProtocol (bench [])) 0x12345678 0x0100))) =
     [frame_line 0x7E0 [0x23, 0x44, 0x22, 0x12, 0x34, 0x56, 0x78, 0x01, 0x00]]"
    using ok by (simp add: read_memory_by_address_written DSMProtocol_def bench_def)
  moreover have "frame_line 0x7E0 [0x23, 0x44, 0x22, 0x12, 0x34, 0x56, 0x78, 0x01, 0x00] =
       ''t7E0234422123456780100'' @ [CHR 0x0D]"
    by (simp add: frame_line_def format_03X_def digits_X.simps bytes_hex_def hex_lower_def hex_upper_def)
  ultimately show ?thesis by (simp add: bytes_hex_length)
qed

section \<open>Validation never reads past the response\<close>

lemma security_access_Inr: "\<exists>v. fst (security_access p level key) = Inr v"
proof (cases "level = 1")
  case True
  then show ?thesis by (simp add: security_access_1_alt Let_def)
next
  case False
  show ?thesis
  proof (cases "level = 2 \<and> (\<exists>k. key = Some k \<and> k \<noteq> [])")
    case True
    then show ?thesis by (auto simp: security_access_2_alt Let_def)
  next
    case no: False
    then have "level \<noteq> 2 \<or> key = None \<or> key = Some []" by (cases key) auto
    with False show ?thesis by (simp add: security_access_other)
  qed
qed

text \<open>
  Claim C10. Whatever the bus delivers, \<open>read_data_by_identifier\<close>,
  \<open>security_access\<close> and \<open>read_memory_by_address\<close> return a value: no byte of the
  response is read past its end (no IndexError, indeed no exception at all). In
  particular a response of at most two bytes makes \<open>read_data_by_identifier\<close> and
  level-1 \<open>security_access\<close> return \<open>None\<close>, and an empty response makes
  \<open>read_memory_by_address\<close> return \<open>None\<close>.
\<close>

theorem response_validation_total:
  "(\<exists>v. fst (read_data_by_identifier p i) = Inr v)
   \<and> (\<exists>v. fst (security_access p level key) = Inr v)
   \<and> (\<exists>v. fst (read_memory_by_address p a n) = Inr v)
   \<and> (\<forall>r. fst (send_uds p [0x22, drop_bit 8 i AND 0xFF, i AND 0xFF]) = Inr (Some r) \<and> length r \<le> 2
          \<longrightarrow> fst (read_data_by_identifier p i) = Inr None)
   \<and> (\<forall>r. fst (send_uds p [0x27, 0x01]) = Inr (Some r) \<and> length r \<le> 2
          \<longrightarrow> fst (security_access p 1 key) = Inr SA_None)
   \<and> (fst (send_uds p [0x23, 0x44, 0x22, drop_bit 24 a AND 0xFF, drop_bit 16 a AND 0xFF,
                        drop_bit 8 a AND 0xFF, a AND 0xFF, drop_bit 8 n AND 0xFF, n AND 0xFF])
           = Inr (Some [])
          \<longrightarrow> fst (read_memory_by_address p a n) = Inr None)"
proof (intro conjI allI impI)
  show "\<exists>v. fst (read_data_by_identifier p i) = Inr v"
    by (simp add: read_data_by_identifier_alt Let_def)
  show "\<exists>v. fst (security_access p level key) = Inr v"
    by (rule security_access_Inr)
  show "\<exists>v. fst (read_memory_by_address p a n) = Inr v"
    by (simp add: read_memory_by_address_alt Let_def)
  show "fst (read_data_by_identifier p i) = Inr None"
    if "fst (send_uds p [0x22, drop_bit 8 i AND 0xFF, i AND 0xFF]) = Inr (Some r) \<and> length r \<le> 2" for r
    using that by (simp add: read_data_by_identifier_alt Let_def)
  show "fst (security_access p 1 key) = Inr SA_None"
    if "fst (send_uds p [0x27, 0x01]) = Inr (Some r) \<and> length r \<le> 2" for r
    using that by (simp add: security_access_1_alt Let_def)
  show "fst (read_memory_by_address p a n) = Inr None"
    if "fst (send_uds p [0x23, 0x44, 0x22, drop_bit 24 a AND 0xFF, drop_bit 16 a AND 0xFF,
                        drop_bit 8 a AND 0xFF, a AND 0xFF, drop_bit 8 n AND 0xFF, n AND 0xFF])
           = Inr (Some [])"
    using that by (simp add: read_memory_by_address_alt Let_def)
qed

theorem response_validation_total_witness:
  "fst (send_uds (DSMProtocol (bench [(2, Some (0x7E8, [0x62, 0xF1]))]))
         [0x22, drop_bit 8 0xF100 AND 0xFF, 0xF100 AND 0xFF]) = Inr (Some [0x62, 0xF1]) \<and>
   fst (read_data_by_identifier (DSMProtocol (bench [(2, Some (0x7E8, [0x62, 0xF1]))])) 0xF100) = Inr None \<and>
   fst (send_uds (DSMProtocol (bench [(2, Some (0x7E8, [0x67]))])) [0x27, 0x01]) = Inr (Some [0x67]) \<and>
   fst (security_access (DSMProtocol (bench [(2, Some (0x7E8, [0x67]))])) 1 None) = Inr SA_None \<and>
   fst (send_uds (DSMProtocol (bench [(2, Some (0x7E8, []))]))
         [0x23, 0x44, 0x22, drop_bit 24 0x1000 AND 0xFF, drop_bit 16 0x1000 AND 0xFF,
          drop_bit 8 0x1000 AND 0xFF, 0x1000 AND 0xFF, drop_bit 8 0x10 AND 0xFF, 0x10 AND 0xFF])
     = Inr (Some []) \<and>
   fst (read_memory_by_address (DSMProtocol (bench [(2, Some (0x7E8, []))])) 0x1000 0x10) = Inr None"
proof -
  have 1: "fst (send_uds (DSMProtocol (bench [(2, Some (0x7E8, [0x62, 0xF1]))]))
         [0x22, drop_bit 8 0xF100 AND 0xFF, 0xF100 AND 0xFF]) = Inr (Some [0x62, 0xF1])"
    by code_simp
  have 2: "fst (send_uds (DSMProtocol (bench [(2, Some (0x7E8, [0x67]))])) [0x27, 0x01]) = Inr (Some [0x67])"
    by code_simp
  have 3: "fst (send_uds (DSMProtocol (bench [(2, Some (0x7E8, []))]))
         [0x23, 0x44, 0x22, drop_bit 24 0x1000 AND 0xFF, drop_bit 16 0x1000 AND 0xFF,
          drop_bit 8 0x1000 AND 0xFF, 0x1000 AND 0xFF, drop_bit 8 0x10 AND 0xFF, 0x10 AND 0xFF])
     = Inr (Some [])"
    by code_simp
  have a: "fst (read_data_by_identifier (DSMProtocol (bench [(2, Some (0x7E8, [0x62, 0xF1]))])) 0xF100) = Inr None"
    using response_validation_total [of "DSMProtocol (bench [(2, Some (0x7E8, [0x62, 0xF1]))])" "0xF100"] 1
    by auto
  have b: "fst (security_access (DSMProtocol (bench [(2, Some (0x7E8, [0x67]))])) 1 None) = Inr SA_None"
    using response_validation_total [of "DSMProtocol (bench [(2, Some (0x7E8, [0x67]))])" _ _ None] 2
    by auto
  have c: "fst (read_memory_by_address (DSMProtocol (bench [(2, Some (0x7E8, []))])) 0x1000 0x10) = Inr None"
    using response_validation_total [of "DSMProtocol (bench [(2, Some (0x7E8, []))])" _ _ _ "0x1000" "0x10"] 3
    by auto
  from 1 2 3 a b c show ?thesis by blast
qed

section \<open>scan_eeprom_segments\<close>

lemma le_div_pos:
  assumes "0 < (b::int)"
  shows "k \<le> a div b \<longleftrightarrow> k * b \<le> a"
proof
  assume "k \<le> a div b"
  then have "k * b \<le> (a div b) * b"
    using assms by (simp add: mult_right_mono)
  also have "\<dots> \<le> a"
    using assms div_mult_mod_eq [of a b] pos_mod_sign [of b a] by linarith
  finally show "k * b \<le> a" .
next
  assume "k * b \<le> a"
  then have "(k * b) div b \<le> a div b"
    using assms by (rule zdiv_mono1)
  then show "k \<le> a div b"
    using assms by simp
qed

lemma py_range_closed:
  assumes "0 < step"
  shows "py_range start (end_id + 1) step =
     Inr (map (\<lambda>k. start + int k * step) [0..<nat ((end_id - start) div step + 1)])"
proof -
  have "(end_id + 1 - start + step - 1) div step = (end_id - start) div step + 1"
    using assms div_add_self2 [of step "end_id - start"] by (simp add: algebra_simps)
  then show ?thesis using assms by (simp add: py_range_def)
qed

lemma closed_range_index:
  assumes "0 < step"
  shows "k < nat ((end_id - start) div step + 1) \<longleftrightarrow> start + int k * step \<le> end_id"
proof -
  have "k < nat ((end_id - start) div step + 1) \<longleftrightarrow> int k \<le> (end_id - start) div step"
    by auto
  also have "\<dots> \<longleftrightarrow> int k * step \<le> end_id - start"
    using assms by (rule le_div_pos)
  finally show ?thesis by auto
qed

lemma read_data_by_identifier_Inr: "\<exists>v. fst (read_data_by_identifier p i) = Inr v"
  by (simp add: read_data_by_identifier_alt Let_def)

lemma found_segments_Cons:
  "found_segments ((i, r) # qs) =
     (case r of Inr (Some d) \<Rightarrow> (if d \<noteq> [] then [(i, d)] else []) | _ \<Rightarrow> []) @ found_segments qs"
  by (simp add: found_segments_def)

lemma scan_loop_queries:
  "fst (scan_loop p segments ids) = Inr (segments @ found_segments (scan_queries p ids))"
proof (induction ids arbitrary: p segments)
  case Nil
  then show ?case by (simp add: found_segments_def)
next
  case (Cons i ids)
  obtain r p' where rp: "read_data_by_identifier p i = (r, p')"
    by (cases "read_data_by_identifier p i")
  then obtain v where v: "r = Inr v"
    using read_data_by_identifier_Inr [of p i] by auto
  show ?case
  proof (cases v)
    case None
    with rp v Cons.IH [of "sleep p' 20" segments] show ?thesis
      by (simp add: found_segments_Cons)
  next
    case (Some d)
    with rp v Cons.IH [of "sleep p' 20" segments] Cons.IH [of "sleep p' 20" "segments @ [(i, d)]"]
    show ?thesis
      by (simp add: found_segments_Cons)
  qed
qed

lemma scan_queries_ids: "map fst (scan_queries p ids) = ids"
  by (induction ids arbitrary: p) (auto split: prod.splits)

lemma quiet_send_uds: "quiet p \<Longrightarrow> quiet (snd (send_uds p data))"
proof (cases "py_bytes data")
  case (Inl e)
  assume "quiet p"
  with Inl show ?thesis by (simp add: send_uds_Inl)
next
  case (Inr bs)
  assume q: "quiet p"
  then have "write_faults (snd (send_can_frame (connector p) (tx_id p) bs)) = []"
    by (simp add: quiet_def send_can_frame_def)
  with q Inr show ?thesis
    using poll_unchanged [of "p\<lparr>connector := snd (send_can_frame (connector p) (tx_id p) bs)\<rparr>"]
    by (simp add: quiet_def send_uds_alt Let_def send_can_frame_keeps)
qed

lemma quiet_not_fails: "quiet p \<Longrightarrow> \<not> send_fails (connector p)"
  by (simp add: quiet_def send_fails_def send_can_frame_def)

lemma read_data_by_identifier_snd:
  "snd (read_data_by_identifier p i) = snd (send_uds p [0x22, drop_bit 8 i AND 0xFF, i AND 0xFF])"
  by (simp add: read_data_by_identifier_alt Let_def)

lemma scan_loop_written:
  "quiet p \<Longrightarrow>
   written (connector (snd (scan_loop p segments ids))) =
     written (connector p) @
       map (\<lambda>i. frame_line (tx_id p) [0x22, word_of_int (drop_bit 8 i AND 0xFF), word_of_int (i AND 0xFF)]) ids"
proof (induction ids arbitrary: p segments)
  case Nil
  then show ?case by simp
next
  case (Cons i ids)
  obtain r p' where rp: "read_data_by_identifier p i = (r, p')"
    by (cases "read_data_by_identifier p i")
  then obtain v where v: "r = Inr v"
    using read_data_by_identifier_Inr [of p i] by auto
  have p': "p' = snd (send_uds p [0x22, drop_bit 8 i AND 0xFF, i AND 0xFF])"
    using rp read_data_by_identifier_snd [of p i] by simp
  have q': "quiet (sleep p' 20)"
    using quiet_send_uds [OF Cons.prems] by (simp add: p' quiet_def sleep_def)
  have tx: "tx_id (sleep p' 20) = tx_id p"
    using send_uds_keeps [of p] by (simp add: p' sleep_def)
  have w: "written (connector (sleep p' 20)) =
      written (connector p) @ [frame_line (tx_id p) [0x22, word_of_int (drop_bit 8 i AND 0xFF), word_of_int (i AND 0xFF)]]"
    using send_uds_wire [OF rdbi_request, of p i] quiet_not_fails [OF Cons.prems]
    by (simp add: p' sleep_def)
  show ?case
    using rp v Cons.IH [OF q'] tx w
    by (cases v) simp_all
qed

lemma closed_range_ascending:
  assumes "0 < (step::int)"
  shows "sorted_wrt (<) (map (\<lambda>k. start + int k * step) [0..<n])"
proof -
  have "sorted_wrt (\<lambda>j k. start + int j * step < start + int k * step) [0..<n]"
    using assms by (intro sorted_wrt_mono_rel [OF _ sorted_wrt_upt]) simp
  then show ?thesis by (simp add: sorted_wrt_map)
qed

text \<open>
  Claim C8. For a positive step, \<open>scan_eeprom_segments\<close> queries exactly the
  identifiers \<open>start_id + k * step\<close> that are at most \<open>end_id\<close>, in ascending order,
  one \<open>read_data_by_identifier\<close> each; it returns, in that order, the pairs of
  identifier and data of the queries that returned non-empty data, and a query that fails
  or returns nothing is skipped without ending the scan. On a connected line without
  write faults the frames written are the requests for these identifiers, one each.
\<close>

theorem scan_eeprom_segments_closed_range:
  assumes "0 < step"
  shows "let n = nat ((end_id - start_id) div step + 1);
             ids = map (\<lambda>k. start_id + int k * step) [0..<n] in
     (\<forall>k. k < n \<longleftrightarrow> start_id + int k * step \<le> end_id)
   \<and> sorted_wrt (<) ids
   \<and> map fst (scan_queries p ids) = ids
   \<and> fst (scan_eeprom_segments p start_id end_id step) = Inr (found_segments (scan_queries p ids))
   \<and> (quiet p \<longrightarrow>
        written (connector (snd (scan_eeprom_segments p start_id end_id step))) =
          written (connector p) @
            map (\<lambda>i. frame_line (tx_id p)
                        [0x22, word_of_int (drop_bit 8 i AND 0xFF), word_of_int (i AND 0xFF)]) ids)"
proof -
  let ?n = "nat ((end_id - start_id) div step + 1)"
  let ?ids = "map (\<lambda>k. start_id + int k * step) [0..<?n]"
  have scan: "scan_eeprom_segments p start_id end_id step = scan_loop p [] ?ids"
    by (simp add: scan_eeprom_segments_def py_range_closed [OF assms])
  have 1: "\<forall>k. k < ?n \<longleftrightarrow> start_id + int k * step \<le> end_id"
    using closed_range_index [OF assms] by blast
  have 2: "sorted_wrt (<) ?ids"
    using assms by (rule closed_range_ascending)
  have 3: "map fst (scan_queries p ?ids) = ?ids"
    by (rule scan_queries_ids)
  have 4: "fst (scan_eeprom_segments p start_id end_id step) = Inr (found_segments (scan_queries p ?ids))"
    using scan_loop_queries [of p "[]" ?ids] by (simp add: scan)
  have 5: "quiet p \<longrightarrow>
        written (connector (snd (scan_eeprom_segments p start_id end_id step))) =
          written (connector p) @
            map (\<lambda>i. frame_line (tx_id p)
                        [0x22, word_of_int (drop_bit 8 i AND 0xFF), word_of_int (i AND 0xFF)]) ?ids"
    using scan_loop_written [of p "[]" ?ids] by (simp add: scan)
  show ?thesis
    unfolding Let_def using 1 2 3 4 5 by (intro conjI)
qed

theorem scan_eeprom_segments_closed_range_witness:
  "(0::int) < 0x10 \<and>
   quiet (DSMProtocol (bench [(7, Some (0x7E8, [0x62, 0xF1, 0x00, 0xAA, 0xBB])), (2000, None), (2000, None)])) \<and>
   written (connector (snd (scan_eeprom_segments
       (DSMProtocol (bench [(7, Some (0x7E8, [0x62, 0xF1, 0x00, 0xAA, 0xBB])), (2000, None), (2000, None)])) 0xF100 0xF120 0x10))) =
     [''t7E022f100'' @ [CHR 0x0D], ''t7E022f110'' @ [CHR 0x0D], ''t7E022f120'' @ [CHR 0x0D]] \<and>
   fst (scan_eeprom_segments
       (DSMProtocol (bench [(7, Some (0x7E8, [0x62, 0xF1, 0x00, 0xAA, 0xBB])), (2000, None), (2000, None)])) 0xF100 0xF120 0x10) =
     Inr [(0xF100, [0xAA, 0xBB])]"
proof -
  let ?p = "DSMProtocol (bench [(7, Some (0x7E8, [0x62, 0xF1, 0x00, 0xAA, 0xBB])), (2000, None), (2000, None)])"
  have s: "(0::int) < 0x10" by simp
  have q: "quiet ?p" by (simp add: quiet_def DSMProtocol_def bench_def)
  have ids: "map (\<lambda>k. 0xF100 + int k * 0x10) [0..<nat ((0xF120 - 0xF100) div 0x10 + 1)]
      = [0xF100, 0xF110, 0xF120 :: int]"
    by code_simp
  have found: "found_segments (scan_queries ?p [0xF100, 0xF110, 0xF120]) = [(0xF100, [0xAA, 0xBB])]"
    by code_simp
  have lines: "map (\<lambda>i. frame_line 0x7E0 [0x22, word_of_int (drop_bit 8 i AND 0xFF), word_of_int (i AND 0xFF)])
      [0xF100, 0xF110, 0xF120 :: int] =
     [''t7E022f100'' @ [CHR 0x0D], ''t7E022f110'' @ [CHR 0x0D], ''t7E022f120'' @ [CHR 0x0D]]"
    by code_simp
  have tx: "tx_id ?p = 0x7E0" "written (connector ?p) = []"
    by (simp_all add: DSMProtocol_def bench_def)
  show ?thesis
    using scan_eeprom_segments_closed_range [OF s, of "0xF120" "0xF100" ?p] q
    unfolding Let_def ids found tx lines
    by (simp add: s)
qed

section \<open>Interrupting a scan\<close>









end
